theory Spec2Isabelle
  imports Main "HOL-Library.Sublist"
begin

section \<open>Data model\<close>

text \<open>
  The repository holds three variants of one React component \<open>App\<close>: a first local one
  (state only), a second local one (state mirrored into localStorage) and a shared one
  (state mirrored from a remote table through change notifications). The vote cycle, the
  derived views and the calendar export are the same code in all three.

  The four members are a fixed tuple; the local variants use the display names as keys, the
  shared variant the romanised ones written here.
\<close>

datatype Member = Teru | Rino | Shunya | Yaan

definition members :: "Member list" where
  "members = [Teru, Rino, Shunya, Yaan]"

text \<open>
  \<open>type Vote = "no" | "if" | "yes"\<close>. The specification calls the middle value "maybe";
  the source writes it \<open>"if"\<close>.
\<close>

datatype Vote = Vote_no | Vote_if | Vote_yes

definition voteCycle :: "Vote list" where
  "voteCycle = [Vote_no, Vote_if, Vote_yes]"

text \<open>
  A JavaScript string is a sequence of UTF-16 code units. Literals of the source that are
  ASCII are written with \<open>lit\<close>.
\<close>

type_synonym ustring = "nat list"

definition lit :: "string \<Rightarrow> ustring" where
  "lit s = map of_char s"

text \<open>
  A \<open>Date\<close> object holds a time value: milliseconds since 1970-01-01T00:00:00Z, or NaN
  (an invalid date), which is \<open>None\<close> here.
\<close>

type_synonym Date = "int option"

text \<open>
  \<open>type Schedule = { id; date; title; votes: Record<Member, Vote> }\<close>. The identifier is a
  number in the local variants and a string in the shared one, so it is a type parameter.
  In the shared variant the start is the field \<open>starts_at\<close>, an ISO string that is only ever
  read as \<open>new Date(s.starts_at)\<close>; \<open>date\<close> is that Date. At run time \<open>votes\<close> is an object
  that may lack keys, and reading a missing key yields \<open>undefined\<close>: a partial map.
\<close>

record 'i Schedule =
  sid :: 'i
  date :: Date
  title :: ustring
  votes :: "Member \<rightharpoonup> Vote"

section \<open>Vote cycle\<close>

text \<open>\<open>Array.prototype.indexOf\<close>: the first index holding the value, \<open>-1\<close> when there is none.\<close>

fun indexFrom :: "'a list \<Rightarrow> 'a \<Rightarrow> int \<Rightarrow> int" where
  "indexFrom [] x k = -1"
| "indexFrom (y # ys) x k = (if y = x then k else indexFrom ys x (k + 1))"

definition indexOf :: "'a list \<Rightarrow> 'a \<Rightarrow> int" where
  "indexOf xs x = indexFrom xs x 0"

text \<open>The operator \<open>%\<close> on integers: the remainder takes the sign of the dividend.\<close>

definition js_rem :: "int \<Rightarrow> int \<Rightarrow> int" where
  "js_rem a b = sgn a * (\<bar>a\<bar> mod \<bar>b\<bar>)"

text \<open>Reading an array at an index: \<open>undefined\<close> outside the array.\<close>

definition at_index :: "'a list \<Rightarrow> int \<Rightarrow> 'a option" where
  "at_index xs i = (if 0 \<le> i \<and> i < int (length xs) then Some (xs ! nat i) else None)"

text \<open>
  \<open>voteCycle[(voteCycle.indexOf(current) + 1) % voteCycle.length]\<close>, where \<open>current\<close> is
  what \<open>s.votes[member]\<close> read, possibly \<open>undefined\<close>.
\<close>

definition nextVote :: "Vote option \<Rightarrow> Vote option" where
  "nextVote current =
     at_index voteCycle
       (js_rem (indexOf (map Some voteCycle) current + 1) (int (length voteCycle)))"

text \<open>
  \<open>{ ...s.votes, [member]: next }\<close>. The next vote is never \<open>undefined\<close> (lemma
  \<open>nextVote_defined\<close>), so the key \<open>member\<close> always holds a vote afterwards.
\<close>

definition spreadVote :: "(Member \<rightharpoonup> Vote) \<Rightarrow> Member \<Rightarrow> (Member \<rightharpoonup> Vote)" where
  "spreadVote vs member = vs(member := nextVote (vs member))"

section \<open>Derived views\<close>

text \<open>\<open>members.every((m) => s.votes[m] === "yes")\<close>\<close>

definition allYes :: "'i Schedule \<Rightarrow> bool" where
  "allYes s = list_all (\<lambda>m. votes s m = Some Vote_yes) members"

text \<open>\<open>schedules.filter((s) => members.every((m) => s.votes[m] === "yes"))\<close>\<close>

definition confirmed :: "'i Schedule list \<Rightarrow> 'i Schedule list" where
  "confirmed schedules = filter allYes schedules"


text \<open>
  \<open>submittedMap\<close> of the local variants: the map starts with \<open>false\<close> for every member;
  for every schedule, the inner loop over the members sets a member to \<open>true\<close> when
  \<open>s.votes[m] !== "no"\<close> (a missing vote reads \<open>undefined\<close>, which differs from \<open>"no"\<close>).
\<close>

definition allFalse :: "Member \<rightharpoonup> bool" where
  "allFalse = map_of (map (\<lambda>m. (m, False)) members)"

definition markMembers :: "'i Schedule \<Rightarrow> (Member \<rightharpoonup> bool) \<Rightarrow> (Member \<rightharpoonup> bool)" where
  "markMembers s acc =
     fold (\<lambda>m acc'. if votes s m \<noteq> Some Vote_no then acc'(m \<mapsto> True) else acc') members acc"

definition submittedMap :: "'i Schedule list \<Rightarrow> (Member \<rightharpoonup> bool)" where
  "submittedMap schedules = fold markMembers schedules allFalse"

text \<open>
  \<open>submittedMap\<close> of the shared variant: the test is
  \<open>s.votes?.[k] && s.votes[k] !== "no"\<close>, and \<open>undefined\<close> is falsy, so a missing vote
  does not count.
\<close>

definition markMembers_shared :: "'i Schedule \<Rightarrow> (Member \<rightharpoonup> bool) \<Rightarrow> (Member \<rightharpoonup> bool)" where
  "markMembers_shared s acc =
     fold (\<lambda>k acc'. if votes s k \<noteq> None \<and> votes s k \<noteq> Some Vote_no
                     then acc'(k \<mapsto> True) else acc') members acc"

definition submittedMap_shared :: "'i Schedule list \<Rightarrow> (Member \<rightharpoonup> bool)" where
  "submittedMap_shared schedules = fold markMembers_shared schedules allFalse"

section \<open>State and its transitions, local variants\<close>

text \<open>
  The component state: the date picked in the calendar, the text of the title input and
  the list of schedules.
\<close>

record 'i AppState =
  cur_date :: Date
  cur_title :: ustring
  schedules :: "'i Schedule list"

text \<open>
  \<open>String.prototype.trim\<close> strips the code units of WhiteSpace and LineTerminator from
  both ends.
\<close>

definition isWhiteSpace :: "nat \<Rightarrow> bool" where
  "isWhiteSpace c =
     (c \<in> set [9, 10, 11, 12, 13, 32, 160, 5760, 8232, 8233, 8239, 8287, 12288, 65279]
      \<or> (8192 \<le> c \<and> c \<le> 8202))"

definition trim :: "ustring \<Rightarrow> ustring" where
  "trim s = rev (dropWhile isWhiteSpace (rev (dropWhile isWhiteSpace s)))"

text \<open>\<open>Object.fromEntries(members.map((m) => [m, "no"]))\<close>\<close>

definition emptyVotes :: "Member \<rightharpoonup> Vote" where
  "emptyVotes = map_of (map (\<lambda>m. (m, Vote_no)) members)"

text \<open>
  \<open>addSchedule\<close> of the local variants; \<open>now\<close> is what \<open>Date.now()\<close> returned. An empty
  string is falsy, so \<open>if (!t) return\<close> leaves when the trimmed title is empty.
\<close>

definition addSchedule :: "int \<Rightarrow> int AppState \<Rightarrow> int AppState" where
  "addSchedule now st =
     (let t = trim (cur_title st) in
      if t = [] then st
      else
        let newSchedule = \<lparr>sid = now, date = cur_date st, title = t, votes = emptyVotes\<rparr>
        in st\<lparr>schedules := schedules st @ [newSchedule], cur_title := []\<rparr>)"

text \<open>\<open>toggleVote\<close> of the local variants: the function handed to \<open>setSchedules\<close>.\<close>

definition toggleVote :: "'i \<Rightarrow> Member \<Rightarrow> 'i Schedule list \<Rightarrow> 'i Schedule list" where
  "toggleVote scheduleId member prev =
     map (\<lambda>s. if sid s \<noteq> scheduleId then s
              else s\<lparr>votes := spreadVote (votes s) member\<rparr>) prev"

text \<open>What a user can do in the local variants, and the state after a sequence of it.\<close>

datatype action =
    SetTitle ustring
  | SetDate Date
  | AddSchedule int
  | ToggleVote int Member

fun step :: "int AppState \<Rightarrow> action \<Rightarrow> int AppState" where
  "step st (SetTitle v) = st\<lparr>cur_title := v\<rparr>"
| "step st (SetDate d) = st\<lparr>cur_date := d\<rparr>"
| "step st (AddSchedule now) = addSchedule now st"
| "step st (ToggleVote scheduleId member) =
     st\<lparr>schedules := toggleVote scheduleId member (schedules st)\<rparr>"

definition initial :: "Date \<Rightarrow> int AppState" where
  "initial today = \<lparr>cur_date = today, cur_title = [], schedules = []\<rparr>"

definition run :: "Date \<Rightarrow> action list \<Rightarrow> int AppState" where
  "run today acts = foldl step (initial today) acts"

section \<open>Requests and change notifications, shared variant\<close>

datatype error = RangeError

text \<open>
  \<open>addSchedule\<close> of the shared variant up to the request it sends: nothing when the trimmed
  title is empty; otherwise \<open>date.toISOString()\<close> (which throws on an invalid date) and the
  row \<open>{ starts_at, title: t, votes: emptyVotes }\<close> to insert. The identifier is assigned by
  the store.
\<close>

definition addSchedule_request ::
  "'i AppState \<Rightarrow> error + (Date \<times> ustring \<times> (Member \<rightharpoonup> Vote)) option" where
  "addSchedule_request st =
     (let t = trim (cur_title st) in
      if t = [] then Inr None
      else case cur_date st of
             None \<Rightarrow> Inl RangeError
           | Some v \<Rightarrow> Inr (Some (Some v, t, emptyVotes)))"

text \<open>
  \<open>toggleVote(s, m)\<close> of the shared variant up to the request it sends:
  \<open>update({ votes: nextVotes }).eq("id", s.id)\<close>.
\<close>

definition toggleVote_request :: "'i Schedule \<Rightarrow> Member \<Rightarrow> 'i \<times> (Member \<rightharpoonup> Vote)" where
  "toggleVote_request s m = (sid s, spreadVote (votes s) m)"

text \<open>
  The change notifications of the store and the handler subscribed to them: an inserted row
  is appended, an updated row replaces the rows with its identifier, a deleted identifier is
  filtered out.
\<close>

datatype 'i change = INSERT "'i Schedule" | UPDATE "'i Schedule" | DELETE 'i

fun onChange :: "'i change \<Rightarrow> 'i Schedule list \<Rightarrow> 'i Schedule list" where
  "onChange (INSERT row) prev = prev @ [row]"
| "onChange (UPDATE row) prev = map (\<lambda>x. if sid x = sid row then row else x) prev"
| "onChange (DELETE oldId) prev = filter (\<lambda>x. sid x \<noteq> oldId) prev"

section \<open>Calendar export\<close>

subsection \<open>Time values (ECMA-262, Time Values and Time Range; Date.prototype.toISOString)\<close>

text \<open>
  The day and time-of-day arithmetic of ECMA-262 on a finite time value. \<open>YearFromTime\<close>
  is specified there as the largest year whose first day is not after the time value; it
  is computed here from an estimate that is at most one year off (lemma
  \<open>YearFromTime_bounds\<close> shows that the result is the specified one).
\<close>

definition msPerDay :: int where
  "msPerDay = 86400000"

definition Day :: "int \<Rightarrow> int" where
  "Day t = t div msPerDay"

definition DaysInYear :: "int \<Rightarrow> int" where
  "DaysInYear y =
     (if y mod 4 \<noteq> 0 then 365
      else if y mod 100 \<noteq> 0 then 366
      else if y mod 400 \<noteq> 0 then 365
      else 366)"

definition DayFromYear :: "int \<Rightarrow> int" where
  "DayFromYear y =
     365 * (y - 1970) + (y - 1969) div 4 - (y - 1901) div 100 + (y - 1601) div 400"

definition YearFromTime :: "int \<Rightarrow> int" where
  "YearFromTime t =
     (let d = Day t; y = 1970 + (400 * d) div 146097 in
      if d < DayFromYear y then y - 1
      else if DayFromYear (y + 1) \<le> d then y + 1
      else y)"

definition InLeapYear :: "int \<Rightarrow> int" where
  "InLeapYear t = (if DaysInYear (YearFromTime t) = 366 then 1 else 0)"

definition DayWithinYear :: "int \<Rightarrow> int" where
  "DayWithinYear t = Day t - DayFromYear (YearFromTime t)"

definition MonthFromTime :: "int \<Rightarrow> int" where
  "MonthFromTime t =
     (let d = DayWithinYear t; l = InLeapYear t in
      if d < 31 then 0
      else if d < 59 + l then 1
      else if d < 90 + l then 2
      else if d < 120 + l then 3
      else if d < 151 + l then 4
      else if d < 181 + l then 5
      else if d < 212 + l then 6
      else if d < 243 + l then 7
      else if d < 273 + l then 8
      else if d < 304 + l then 9
      else if d < 334 + l then 10
      else 11)"

definition DateFromTime :: "int \<Rightarrow> int" where
  "DateFromTime t =
     (let d = DayWithinYear t; l = InLeapYear t; m = MonthFromTime t in
      if m = 0 then d + 1
      else if m = 1 then d - 30
      else if m = 2 then d - 58 - l
      else if m = 3 then d - 89 - l
      else if m = 4 then d - 119 - l
      else if m = 5 then d - 150 - l
      else if m = 6 then d - 180 - l
      else if m = 7 then d - 211 - l
      else if m = 8 then d - 242 - l
      else if m = 9 then d - 272 - l
      else if m = 10 then d - 303 - l
      else d - 333 - l)"

definition HourFromTime :: "int \<Rightarrow> int" where
  "HourFromTime t = (t div 3600000) mod 24"

definition MinFromTime :: "int \<Rightarrow> int" where
  "MinFromTime t = (t div 60000) mod 60"

definition SecFromTime :: "int \<Rightarrow> int" where
  "SecFromTime t = (t div 1000) mod 60"

definition msFromTime :: "int \<Rightarrow> int" where
  "msFromTime t = t mod 1000"

text \<open>Decimal digits of a natural number, and \<open>padStart(k, "0")\<close>.\<close>

fun decimal :: "nat \<Rightarrow> ustring" where
  "decimal n = (if n < 10 then [48 + n] else decimal (n div 10) @ [48 + n mod 10])"

definition padStart :: "nat \<Rightarrow> nat \<Rightarrow> ustring \<Rightarrow> ustring" where
  "padStart k c s = replicate (k - length s) c @ s"

definition pad :: "nat \<Rightarrow> int \<Rightarrow> ustring" where
  "pad k n = padStart k 48 (decimal (nat n))"

text \<open>
  \<open>Date.prototype.toISOString\<close>: a RangeError on an invalid date, otherwise
  \<open>YYYY-MM-DDTHH:mm:ss.sssZ\<close>, the year written with four digits from 0 to 9999 and
  as an expanded year, a sign and six digits, outside.
\<close>

definition isoYear :: "int \<Rightarrow> ustring" where
  "isoYear y =
     (if 0 \<le> y \<and> y \<le> 9999 then pad 4 y
      else (if y < 0 then lit ''-'' else lit ''+'') @ pad 6 \<bar>y\<bar>)"

definition toISOString :: "Date \<Rightarrow> error + ustring" where
  "toISOString d =
     (case d of
        None \<Rightarrow> Inl RangeError
      | Some t \<Rightarrow>
          Inr (isoYear (YearFromTime t) @ lit ''-'' @ pad 2 (MonthFromTime t + 1) @ lit ''-''
               @ pad 2 (DateFromTime t) @ lit ''T'' @ pad 2 (HourFromTime t) @ lit '':''
               @ pad 2 (MinFromTime t) @ lit '':'' @ pad 2 (SecFromTime t) @ lit ''.''
               @ pad 3 (msFromTime t) @ lit ''Z''))"

text \<open>
  \<open>d.getTime()\<close> is the time value; \<open>new Date(v)\<close> of a number clips it: beyond
  8.64e15 milliseconds from the epoch, and for NaN, the date is invalid.
\<close>

definition getTime :: "Date \<Rightarrow> int option" where
  "getTime d = d"

definition newDate :: "int option \<Rightarrow> Date" where
  "newDate v =
     (case v of
        None \<Rightarrow> None
      | Some t \<Rightarrow> if \<bar>t\<bar> \<le> 8640000000000000 then Some t else None)"

subsection \<open>The export\<close>

text \<open>An exception passes through the rest of a computation.\<close>

definition thenE :: "error + 'a \<Rightarrow> ('a \<Rightarrow> error + 'b) \<Rightarrow> error + 'b" where
  "thenE r f = (case r of Inl e \<Rightarrow> Inl e | Inr x \<Rightarrow> f x)"

text \<open>\<open>Array.prototype.map\<close> with a callback that may throw.\<close>

fun mapE :: "('a \<Rightarrow> error + 'b) \<Rightarrow> 'a list \<Rightarrow> error + 'b list" where
  "mapE f [] = Inr []"
| "mapE f (x # xs) = thenE (f x) (\<lambda>y. thenE (mapE f xs) (\<lambda>ys. Inr (y # ys)))"

text \<open>\<open>Array.prototype.join\<close>\<close>

fun join :: "ustring \<Rightarrow> ustring list \<Rightarrow> ustring" where
  "join sep [] = []"
| "join sep [x] = x"
| "join sep (x # y # ys) = x @ sep @ join sep (y # ys)"

text \<open>
  \<open>x.toISOString().replace(/[-:]/g, "").split(".")[0] + "Z"\<close>: every \<open>-\<close> and \<open>:\<close> is
  removed, the text before the first \<open>.\<close> is kept, and \<open>Z\<close> is appended.
\<close>

definition stampOf :: "Date \<Rightarrow> error + ustring" where
  "stampOf d =
     thenE (toISOString d)
       (\<lambda>iso. Inr (takeWhile (\<lambda>c. c \<noteq> of_char (CHR ''.''))
                     (filter (\<lambda>c. c \<noteq> of_char (CHR ''-'') \<and> c \<noteq> of_char (CHR '':'')) iso)
                   @ lit ''Z''))"

definition NL :: ustring where
  "NL = [10]"

text \<open>The callback of \<open>confirmed.map\<close>: one \<open>VEVENT\<close> block, the end two hours after the start.\<close>

definition icsEvent :: "'i Schedule \<Rightarrow> error + ustring" where
  "icsEvent s =
     thenE (stampOf (date s)) (\<lambda>start.
     thenE (stampOf (newDate (map_option (\<lambda>t. t + 2 * 60 * 60 * 1000) (getTime (date s))))) (\<lambda>end.
       Inr (join NL
             [lit ''BEGIN:VEVENT'',
              lit ''SUMMARY:'' @ title s,
              lit ''DTSTART:'' @ start,
              lit ''DTEND:'' @ end,
              lit ''END:VEVENT''])))"

text \<open>
  What the export does to the outside: a notice (\<open>alert\<close>), or a file offered for download
  under a name, with a MIME type and a content.
\<close>

datatype effect = Alert ustring | Download ustring ustring ustring

definition noConfirmed :: ustring where
  "noConfirmed =
     [30906, 23450, 12375, 12383, 20104, 23450, 12364, 12354, 12426, 12414, 12379, 12435]"

text \<open>
  \<open>exportICS\<close>: the effects it has, or the exception it throws, and the state after it (it
  sets no state).
\<close>

definition exportICS :: "'i AppState \<Rightarrow> (error + effect list) \<times> 'i AppState" where
  "exportICS st =
     (let c = confirmed (schedules st) in
      if length c = 0 then (Inr [Alert noConfirmed], st)
      else
        (thenE (mapE icsEvent c) (\<lambda>evs.
           let icsEvents = join NL evs;
               icsContent = lit ''BEGIN:VCALENDAR'' @ NL @ lit ''VERSION:2.0'' @ NL
                            @ icsEvents @ NL @ lit ''END:VCALENDAR''
           in Inr [Download (lit ''splatoon-schedule.ics'')
                            (lit ''text/calendar;charset=utf-8'') icsContent]),
         st))"

subsection \<open>The calendar stamp as the specification words it\<close>

text \<open>
  \<open>YYYYMMDDTHHMMSSZ\<close>: four digits of the year, two of the month, of the day, the letter
  \<open>T\<close>, two digits of the hour, of the minute, of the second, all in UTC, and the letter \<open>Z\<close>.
  \<open>digits k n\<close> are the \<open>k\<close> lowest decimal digits of \<open>n\<close>, the highest first.
\<close>

fun digits :: "nat \<Rightarrow> nat \<Rightarrow> ustring" where
  "digits 0 n = []"
| "digits (Suc k) n = digits k (n div 10) @ [48 + n mod 10]"

definition calendarStamp :: "int \<Rightarrow> ustring" where
  "calendarStamp t =
     digits 4 (nat (YearFromTime t)) @ digits 2 (nat (MonthFromTime t + 1))
     @ digits 2 (nat (DateFromTime t)) @ lit ''T'' @ digits 2 (nat (HourFromTime t))
     @ digits 2 (nat (MinFromTime t)) @ digits 2 (nat (SecFromTime t)) @ lit ''Z''"

definition isDigit :: "nat \<Rightarrow> bool" where
  "isDigit c = (48 \<le> c \<and> c \<le> 57)"

definition isCalendarStamp :: "ustring \<Rightarrow> bool" where
  "isCalendarStamp s =
     (length s = 16 \<and> list_all isDigit (take 8 s) \<and> s ! 8 = of_char (CHR ''T'')
      \<and> list_all isDigit (take 6 (drop 9 s)) \<and> s ! 15 = of_char (CHR ''Z''))"

text \<open>
  The calendar text as the specification words it: every event one block between
  \<open>BEGIN:VEVENT\<close> and \<open>END:VEVENT\<close> with the title verbatim, the stamp of the start and
  the stamp of the start plus two hours; all blocks inside one container between
  \<open>BEGIN:VCALENDAR\<close>, followed by the version field, and \<open>END:VCALENDAR\<close>, one line each.
\<close>

definition spec_vevent :: "ustring \<Rightarrow> int \<Rightarrow> ustring" where
  "spec_vevent ttl t =
     lit ''BEGIN:VEVENT'' @ NL @ lit ''SUMMARY:'' @ ttl @ NL
     @ lit ''DTSTART:'' @ calendarStamp t @ NL
     @ lit ''DTEND:'' @ calendarStamp (t + 2 * 3600000) @ NL
     @ lit ''END:VEVENT''"

definition spec_calendar :: "(ustring \<times> int) list \<Rightarrow> ustring" where
  "spec_calendar evs =
     lit ''BEGIN:VCALENDAR'' @ NL @ lit ''VERSION:2.0'' @ NL
     @ concat (map (\<lambda>(ttl, t). spec_vevent ttl t @ NL) evs)
     @ lit ''END:VCALENDAR''"

text \<open>The years that four digits can write.\<close>

definition fourDigitYear :: "int \<Rightarrow> bool" where
  "fourDigitYear t = (0 \<le> YearFromTime t \<and> YearFromTime t \<le> 9999)"

section \<open>The invariant of the votes\<close>

text \<open>The keys of the votes of a schedule are exactly the members.\<close>

definition fullVotes :: "'i Schedule \<Rightarrow> bool" where
  "fullVotes s = (dom (votes s) = set members)"

section \<open>Example data\<close>

text \<open>
  Concrete schedules and states at which the theorems below are instantiated. The title of
  \<open>ex_event\<close> is \<open>21:00\<close> followed by the two code units U+96C6 and U+5408; the start of
  \<open>ex_late\<close> is the first millisecond of the year 10000.
\<close>

definition ex_event :: "int Schedule" where
  "ex_event = \<lparr>sid = 1700000000123, date = Some 1700000000000,
                title = lit ''21:00'' @ [38598, 21512], votes = (\<lambda>m. Some Vote_yes)\<rparr>"

definition ex_no :: "int Schedule" where
  "ex_no = \<lparr>sid = 1700000000456, date = Some 1700086400000, title = lit ''22:00'',
             votes = (\<lambda>m. Some Vote_no)\<rparr>"

definition ex_list :: "int Schedule list" where
  "ex_list = [ex_event, ex_no]"

definition ex_state :: "int AppState" where
  "ex_state = \<lparr>cur_date = Some 1700000000000, cur_title = [], schedules = [ex_event]\<rparr>"

definition ex_idle :: "int AppState" where
  "ex_idle = \<lparr>cur_date = Some 1700000000000, cur_title = [], schedules = [ex_no]\<rparr>"

definition ex_blank :: "int AppState" where
  "ex_blank = \<lparr>cur_date = Some 1700000000000, cur_title = [32, 12288, 9], schedules = [ex_no]\<rparr>"

definition ex_typed :: "int AppState" where
  "ex_typed = \<lparr>cur_date = Some 1700000000000, cur_title = lit '' 21:00 '', schedules = [ex_no]\<rparr>"

definition ex_acts :: "action list" where
  "ex_acts = [SetTitle (lit '' 21:00 ''), AddSchedule 1700000000123,
              ToggleVote 1700000000123 Rino]"

definition ex_late :: "int Schedule" where
  "ex_late = \<lparr>sid = 1, date = Some 253402300800000, title = lit ''x'',
               votes = (\<lambda>m. Some Vote_yes)\<rparr>"

definition ex_late_state :: "int AppState" where
  "ex_late_state = \<lparr>cur_date = Some 0, cur_title = [], schedules = [ex_late]\<rparr>"

declare decimal.simps [simp del]

section \<open>Properties of the vote cycle\<close>

lemma nextVote_values:
  "nextVote (Some Vote_no) = Some Vote_if"
  "nextVote (Some Vote_if) = Some Vote_yes"
  "nextVote (Some Vote_yes) = Some Vote_no"
  "nextVote None = Some Vote_no"
  by (simp_all add: nextVote_def voteCycle_def indexOf_def js_rem_def at_index_def)

lemma nextVote_defined: "\<exists>v. nextVote c = Some v"
proof (cases c)
  case None
  then show ?thesis by (simp add: nextVote_values)
next
  case (Some v)
  then show ?thesis by (cases v) (simp_all add: nextVote_values)
qed

text \<open>
  Claim C2. For every vote, the step of the vote cycle advances one position along
  no, if ("maybe"), yes and wraps from yes to no; three steps return the vote they
  started from.
\<close>

theorem C2_vote_cycle:
  "nextVote (Some Vote_no) = Some Vote_if \<and>
   nextVote (Some Vote_if) = Some Vote_yes \<and>
   nextVote (Some Vote_yes) = Some Vote_no \<and>
   nextVote (nextVote (nextVote (Some v))) = Some v"
  by (cases v) (simp_all add: nextVote_values)

section \<open>Properties of the derived views\<close>

lemma set_members: "set members = UNIV"
proof -
  have "m \<in> set members" for m by (cases m) (simp_all add: members_def)
  then show ?thesis by auto
qed

lemma allYes_iff: "allYes s \<longleftrightarrow> (\<forall>m. votes s m = Some Vote_yes)"
  by (simp add: allYes_def list_all_iff set_members)

lemma ex_sids: "sid ex_event = 1700000000123" "sid ex_no = 1700000000456"
  by (simp_all add: ex_event_def ex_no_def)

lemma ex_votes: "votes ex_event = (\<lambda>m. Some Vote_yes)" "votes ex_no = (\<lambda>m. Some Vote_no)"
  by (simp_all add: ex_event_def ex_no_def)

text \<open>
  Claim C1. For every list of schedules, the confirmed schedules are the schedules in which
  every member's vote is yes, in the order of the list: the result is the filter of the list
  by that condition, hence a subsequence of it; the empty list has no confirmed schedule.
\<close>

theorem C1_confirmed_filter:
  "confirmed ss = filter (\<lambda>s. \<forall>m. votes s m = Some Vote_yes) ss
   \<and> subseq (confirmed ss) ss
   \<and> confirmed ([] :: 'i Schedule list) = []"
proof -
  have "filter allYes ss = filter (\<lambda>s. \<forall>m. votes s m = Some Vote_yes) ss"
    by (rule filter_cong) (simp_all add: allYes_iff)
  then show ?thesis by (simp add: confirmed_def)
qed


lemma inner_local:
  "fold (\<lambda>m acc'. if votes s m \<noteq> Some Vote_no then acc'(m \<mapsto> True) else acc') ms acc k
   = (if k \<in> set ms \<and> votes s k \<noteq> Some Vote_no then Some True else acc k)"
  by (induction ms arbitrary: acc) auto

lemma markMembers_apply:
  "markMembers s acc k = (if votes s k \<noteq> Some Vote_no then Some True else acc k)"
  by (simp add: markMembers_def inner_local set_members)

lemma fold_markMembers:
  "fold markMembers ss acc k
   = (if \<exists>s\<in>set ss. votes s k \<noteq> Some Vote_no then Some True else acc k)"
  by (induction ss arbitrary: acc) (auto simp: markMembers_apply)

lemma allFalse_eq: "allFalse k = Some False"
  by (cases k) (simp_all add: allFalse_def members_def)

lemma submittedMap_eq: "submittedMap ss k = Some (\<exists>s\<in>set ss. votes s k \<noteq> Some Vote_no)"
  by (simp add: submittedMap_def fold_markMembers allFalse_eq)

lemma inner_shared:
  "fold (\<lambda>k acc'. if votes s k \<noteq> None \<and> votes s k \<noteq> Some Vote_no then acc'(k \<mapsto> True) else acc') ms acc k
   = (if k \<in> set ms \<and> votes s k \<noteq> None \<and> votes s k \<noteq> Some Vote_no then Some True else acc k)"
  by (induction ms arbitrary: acc) auto

lemma markMembers_shared_apply:
  "markMembers_shared s acc k
   = (if votes s k \<noteq> None \<and> votes s k \<noteq> Some Vote_no then Some True else acc k)"
  unfolding markMembers_shared_def inner_shared by (simp add: set_members)

lemma fold_markMembers_shared:
  "fold markMembers_shared ss acc k
   = (if \<exists>s\<in>set ss. votes s k \<noteq> None \<and> votes s k \<noteq> Some Vote_no then Some True else acc k)"
  by (induction ss arbitrary: acc) (auto simp: markMembers_shared_apply)

lemma submittedMap_shared_eq:
  "submittedMap_shared ss k = Some (\<exists>s\<in>set ss. votes s k \<noteq> None \<and> votes s k \<noteq> Some Vote_no)"
  unfolding submittedMap_shared_def fold_markMembers_shared allFalse_eq by simp

text \<open>
  Claim C4. For every list of schedules and every member, the responded flag of the member is
  true exactly when some schedule holds a vote of the member that is not no. It is false for
  the empty list, and false when every vote of the member is no. The local variants read
  the vote with \<open>s.votes[m] !== "no"\<close>; the shared variant also asks that the vote is
  there, and where every schedule holds a vote of the member the two conditions are the same.
\<close>

theorem C4_responded:
  "submittedMap ss m = Some (\<exists>s\<in>set ss. votes s m \<noteq> Some Vote_no)
   \<and> submittedMap_shared ss m = Some (\<exists>s\<in>set ss. \<exists>v. votes s m = Some v \<and> v \<noteq> Vote_no)
   \<and> submittedMap ([] :: 'i Schedule list) m = Some False
   \<and> submittedMap_shared ([] :: 'i Schedule list) m = Some False
   \<and> ((\<forall>s\<in>set ss. votes s m = Some Vote_no) \<longrightarrow>
        submittedMap ss m = Some False \<and> submittedMap_shared ss m = Some False)"
proof -
  have "(\<exists>s\<in>set ss. votes s m \<noteq> None \<and> votes s m \<noteq> Some Vote_no)
        = (\<exists>s\<in>set ss. \<exists>v. votes s m = Some v \<and> v \<noteq> Vote_no)"
    by auto
  then show ?thesis
    by (simp add: submittedMap_eq submittedMap_shared_eq)
qed


text \<open>
  The theorem for C4 at a list whose only schedule holds all votes no, and at that list
  extended by a schedule with all votes yes.
\<close>

theorem C4_responded_witness:
  "votes ex_no Teru = Some Vote_no
   \<and> submittedMap [ex_no] Teru = Some False
   \<and> submittedMap_shared [ex_no] Teru = Some False
   \<and> votes ex_event Teru = Some Vote_yes
   \<and> submittedMap [ex_no, ex_event] Teru = Some True
   \<and> submittedMap_shared [ex_no, ex_event] Teru = Some True"
proof -
  note A = C4_responded [of "[ex_no]" Teru]
  note B = C4_responded [of "[ex_no, ex_event]" Teru]
  have n: "votes ex_no Teru = Some Vote_no" and y: "votes ex_event Teru = Some Vote_yes"
    by (simp_all add: ex_votes)
  have hp: "\<forall>s\<in>set [ex_no]. votes s Teru = Some Vote_no" using n by simp
  have a: "submittedMap [ex_no] Teru = Some False \<and> submittedMap_shared [ex_no] Teru = Some False"
    using A [THEN conjunct2, THEN conjunct2, THEN conjunct2, THEN conjunct2] hp by (rule mp)
  have b1: "submittedMap [ex_no, ex_event] Teru = Some True"
    using B [THEN conjunct1] n y by simp
  have b2: "submittedMap_shared [ex_no, ex_event] Teru = Some True"
    using B [THEN conjunct2, THEN conjunct1] n y by simp
  show ?thesis using n y a b1 b2 by simp
qed

section \<open>The votes of every schedule have all members as keys\<close>

lemma dom_emptyVotes: "dom emptyVotes = set members"
  by (auto simp: emptyVotes_def members_def dom_def)

lemma emptyVotes_eq: "emptyVotes m = Some Vote_no"
  by (cases m) (simp_all add: emptyVotes_def members_def)

lemma dom_spreadVote: "dom (spreadVote vs m) = insert m (dom vs)"
  using nextVote_defined [of "vs m"] by (auto simp: spreadVote_def)

lemma spreadVote_other: "m' \<noteq> m \<Longrightarrow> spreadVote vs m m' = vs m'"
  by (simp add: spreadVote_def)

lemma spreadVote_same: "spreadVote vs m m = nextVote (vs m)"
  by (simp add: spreadVote_def)

lemma fullVotes_spread: "fullVotes s \<Longrightarrow> fullVotes (s\<lparr>votes := spreadVote (votes s) m\<rparr>)"
  by (simp add: fullVotes_def dom_spreadVote set_members)

lemma fullVotes_toggle:
  "\<forall>s\<in>set prev. fullVotes s \<Longrightarrow> \<forall>s\<in>set (toggleVote i m prev). fullVotes s"
  by (auto simp: toggleVote_def fullVotes_spread)

lemma fullVotes_add:
  "\<forall>s\<in>set (schedules st). fullVotes s \<Longrightarrow> \<forall>s\<in>set (schedules (addSchedule now st)). fullVotes s"
  by (auto simp: addSchedule_def Let_def fullVotes_def dom_emptyVotes)

lemma fullVotes_step:
  "\<forall>s\<in>set (schedules st). fullVotes s \<Longrightarrow> \<forall>s\<in>set (schedules (step st a)). fullVotes s"
proof (cases a)
  case (AddSchedule now)
  assume "\<forall>s\<in>set (schedules st). fullVotes s"
  then show ?thesis using AddSchedule fullVotes_add [of st now] by simp
next
  case (ToggleVote i m)
  assume "\<forall>s\<in>set (schedules st). fullVotes s"
  then show ?thesis using ToggleVote fullVotes_toggle [of "schedules st" i m] by simp
qed simp_all

lemma fullVotes_foldl:
  "\<forall>s\<in>set (schedules st). fullVotes s \<Longrightarrow> \<forall>s\<in>set (schedules (foldl step st acts)). fullVotes s"
proof (induction acts arbitrary: st)
  case Nil
  then show ?case by simp
next
  case (Cons a acts)
  show ?case using Cons.IH [OF fullVotes_step [OF Cons.prems]] by simp
qed

lemma fullVotes_run: "\<forall>s\<in>set (schedules (run today acts)). fullVotes s"
  using fullVotes_foldl [of "initial today" acts] by (simp add: run_def initial_def)

lemma fullVotes_onChange:
  assumes "\<forall>x\<in>set prev. fullVotes x"
    and "\<forall>row. c = INSERT row \<or> c = UPDATE row \<longrightarrow> fullVotes row"
  shows "\<forall>x\<in>set (onChange c prev). fullVotes x"
  using assms by (cases c) auto

text \<open>
  Claim C3. After every sequence of user actions from the empty collection (creations, vote
  toggles, edits of the inputs), the keys of the votes of every schedule are exactly the
  members. In the shared variant the same holds piece by piece: the row that \<open>addSchedule\<close>
  sends has all members as keys, the votes that \<open>toggleVote\<close> sends for a schedule with
  all members as keys have all members as keys, and the handler of the change
  notifications keeps the property when the rows it receives have it.
\<close>

theorem C3_votes_total:
  "(\<forall>s\<in>set (schedules (run today acts)). fullVotes s)
   \<and> (\<forall>d t vs. addSchedule_request st = Inr (Some (d, t, vs)) \<longrightarrow> dom vs = set members)
   \<and> (fullVotes s \<longrightarrow> dom (snd (toggleVote_request s m)) = set members)
   \<and> ((\<forall>x\<in>set prev. fullVotes x)
        \<and> (\<forall>row. c = INSERT row \<or> c = UPDATE row \<longrightarrow> fullVotes row)
        \<longrightarrow> (\<forall>x\<in>set (onChange c prev). fullVotes x))"
proof -
  have a: "dom vs = set members" if "addSchedule_request st = Inr (Some (d, t, vs))" for d t vs
    using that
    by (auto simp: addSchedule_request_def Let_def dom_emptyVotes split: if_splits option.splits)
  have b: "dom (snd (toggleVote_request s m)) = set members" if "fullVotes s"
    using that by (simp add: toggleVote_request_def dom_spreadVote fullVotes_def set_members)
  have c: "\<forall>x\<in>set (onChange c prev). fullVotes x"
    if "(\<forall>x\<in>set prev. fullVotes x)
        \<and> (\<forall>row. c = INSERT row \<or> c = UPDATE row \<longrightarrow> fullVotes row)"
    using that fullVotes_onChange [of prev c] by simp
  show ?thesis
    by (intro conjI allI impI) (rule fullVotes_run, erule a, erule b, erule c)
qed

lemma trim_typed: "trim (lit '' 21:00 '') = lit ''21:00''"
  by (simp add: trim_def lit_def isWhiteSpace_def)

lemma trim_blank: "trim [32, 12288, 9] = []"
  by (simp add: trim_def isWhiteSpace_def)

lemma lit_typed_ne: "lit ''21:00'' \<noteq> []"
  by (simp add: lit_def)

lemma run_ex_acts:
  "schedules (run (Some 0) ex_acts) =
     [\<lparr>sid = 1700000000123, date = Some 0, title = lit ''21:00'',
       votes = spreadVote emptyVotes Rino\<rparr>]"
  by (simp add: run_def initial_def ex_acts_def addSchedule_def toggleVote_def Let_def trim_typed
      lit_typed_ne)

text \<open>
  The theorem for C3 after typing a title, creating a schedule and toggling one vote, and at
  the requests and the notification of the shared variant.
\<close>

theorem C3_votes_total_witness:
  "schedules (run (Some 0) ex_acts) =
     [\<lparr>sid = 1700000000123, date = Some 0, title = lit ''21:00'',
       votes = spreadVote emptyVotes Rino\<rparr>]
   \<and> dom (spreadVote emptyVotes Rino) = set members
   \<and> spreadVote emptyVotes Rino Rino = Some Vote_if
   \<and> addSchedule_request ex_typed = Inr (Some (Some 1700000000000, lit ''21:00'', emptyVotes))
   \<and> dom emptyVotes = set members
   \<and> fullVotes ex_no
   \<and> dom (snd (toggleVote_request ex_no Teru)) = set members
   \<and> fullVotes (hd (onChange (UPDATE ex_event) [ex_event]))"
proof -
  note T = C3_votes_total [of "Some 0" ex_acts ex_typed ex_no Teru "[ex_event]" "UPDATE ex_event"]
  have f1: "fullVotes ex_no" by (simp add: fullVotes_def ex_no_def set_members dom_def)
  have f2: "fullVotes ex_event" by (simp add: fullVotes_def ex_event_def set_members dom_def)
  have rq: "addSchedule_request ex_typed = Inr (Some (Some 1700000000000, lit ''21:00'', emptyVotes))"
    by (simp add: addSchedule_request_def ex_typed_def trim_typed Let_def lit_typed_ne)
  have "\<forall>s\<in>set (schedules (run (Some 0) ex_acts)). fullVotes s"
    using T by (rule conjunct1)
  then have c1: "dom (spreadVote emptyVotes Rino) = set members"
    unfolding run_ex_acts by (simp add: fullVotes_def)
  have c2: "spreadVote emptyVotes Rino Rino = Some Vote_if"
    by (simp add: spreadVote_same emptyVotes_eq nextVote_values)
  have c3: "dom emptyVotes = set members"
    using T [THEN conjunct2, THEN conjunct1, rule_format, OF rq] .
  have c4: "dom (snd (toggleVote_request ex_no Teru)) = set members"
    using T [THEN conjunct2, THEN conjunct2, THEN conjunct1, rule_format, OF f1] .
  have hp: "(\<forall>x\<in>set [ex_event]. fullVotes x)
        \<and> (\<forall>row. UPDATE ex_event = INSERT row \<or> UPDATE ex_event = UPDATE row \<longrightarrow> fullVotes row)"
    using f2 by simp
  have "\<forall>x\<in>set (onChange (UPDATE ex_event) [ex_event]). fullVotes x"
    using T [THEN conjunct2, THEN conjunct2, THEN conjunct2] hp by (rule mp)
  then have c5: "fullVotes (hd (onChange (UPDATE ex_event) [ex_event]))" by simp
  show ?thesis
    by (intro conjI) (rule run_ex_acts c1 c2 rq c3 f1 c4 c5)+
qed

section \<open>Creating a schedule\<close>

text \<open>
  Claim C6. \<open>addSchedule\<close> with a title that is empty after trimming leaves the state as it
  is, so no schedule is added; with a title that is not empty after trimming it appends
  exactly one schedule, with the trimmed title, the picked date and the vote no for every
  member. In the shared variant it sends no request in the first case and, for a valid picked
  date, the row with the trimmed title and the vote no for every member in the second; the
  handler appends the row that the store announces.
\<close>

theorem C6_addSchedule:
  "(trim (cur_title st) = [] \<longrightarrow> addSchedule now st = st)
   \<and> (trim (cur_title st) \<noteq> [] \<longrightarrow>
        (\<exists>e. schedules (addSchedule now st) = schedules st @ [e]
             \<and> (\<forall>m. votes e m = Some Vote_no)
             \<and> title e = trim (cur_title st) \<and> date e = cur_date st \<and> sid e = now))
   \<and> (trim (cur_title st') = [] \<longrightarrow> addSchedule_request st' = Inr None)
   \<and> (trim (cur_title st') \<noteq> [] \<and> cur_date st' \<noteq> None \<longrightarrow>
        (\<exists>vs. addSchedule_request st' = Inr (Some (cur_date st', trim (cur_title st'), vs))
              \<and> (\<forall>m. vs m = Some Vote_no)))
   \<and> onChange (INSERT row) prev = prev @ [row]"
proof (intro conjI impI)
  assume "trim (cur_title st) = []"
  then show "addSchedule now st = st" by (simp add: addSchedule_def)
next
  assume "trim (cur_title st) \<noteq> []"
  then have "schedules (addSchedule now st)
      = schedules st @ [\<lparr>sid = now, date = cur_date st, title = trim (cur_title st),
                          votes = emptyVotes\<rparr>]"
    by (simp add: addSchedule_def Let_def)
  then show "\<exists>e. schedules (addSchedule now st) = schedules st @ [e]
             \<and> (\<forall>m. votes e m = Some Vote_no)
             \<and> title e = trim (cur_title st) \<and> date e = cur_date st \<and> sid e = now"
    by (simp add: emptyVotes_eq)
next
  assume "trim (cur_title st') = []"
  then show "addSchedule_request st' = Inr None" by (simp add: addSchedule_request_def)
next
  assume "trim (cur_title st') \<noteq> [] \<and> cur_date st' \<noteq> None"
  then have "addSchedule_request st'
      = Inr (Some (cur_date st', trim (cur_title st'), emptyVotes))"
    by (auto simp: addSchedule_request_def Let_def)
  then show "\<exists>vs. addSchedule_request st' = Inr (Some (cur_date st', trim (cur_title st'), vs))
              \<and> (\<forall>m. vs m = Some Vote_no)"
    by (simp add: emptyVotes_eq)
next
  show "onChange (INSERT row) prev = prev @ [row]" by simp
qed

text \<open>
  The theorem for C6 at a title of a space, an ideographic space and a tab, and at the title
  \<open>21:00\<close> between two spaces.
\<close>

theorem C6_addSchedule_witness:
  "trim (cur_title ex_blank) = []
   \<and> addSchedule 1700000000123 ex_blank = ex_blank
   \<and> addSchedule_request ex_blank = Inr None
   \<and> trim (cur_title ex_typed) = lit ''21:00''
   \<and> (\<exists>e. schedules (addSchedule 1700000000123 ex_typed) = schedules ex_typed @ [e]
          \<and> (\<forall>m. votes e m = Some Vote_no)
          \<and> title e = lit ''21:00'' \<and> date e = Some 1700000000000 \<and> sid e = 1700000000123)
   \<and> (\<exists>vs. addSchedule_request ex_typed = Inr (Some (Some 1700000000000, lit ''21:00'', vs))
           \<and> (\<forall>m. vs m = Some Vote_no))"
proof -
  note A = C6_addSchedule [of ex_blank 1700000000123 ex_blank]
  note B = C6_addSchedule [of ex_typed 1700000000123 ex_typed]
  have tb: "trim (cur_title ex_blank) = []" by (simp add: ex_blank_def trim_blank)
  have tt: "trim (cur_title ex_typed) = lit ''21:00''" by (simp add: ex_typed_def trim_typed)
  have ne: "trim (cur_title ex_typed) \<noteq> []" by (simp add: tt lit_typed_ne)
  have dt: "cur_date ex_typed = Some 1700000000000" by (simp add: ex_typed_def)
  have a1: "addSchedule 1700000000123 ex_blank = ex_blank"
    using A [THEN conjunct1] tb by (rule mp)
  have a2: "addSchedule_request ex_blank = Inr None"
    using A [THEN conjunct2, THEN conjunct2, THEN conjunct1] tb by (rule mp)
  have b1: "\<exists>e. schedules (addSchedule 1700000000123 ex_typed) = schedules ex_typed @ [e]
          \<and> (\<forall>m. votes e m = Some Vote_no)
          \<and> title e = trim (cur_title ex_typed) \<and> date e = cur_date ex_typed
          \<and> sid e = 1700000000123"
    using B [THEN conjunct2, THEN conjunct1] ne by (rule mp)
  have hp: "trim (cur_title ex_typed) \<noteq> [] \<and> cur_date ex_typed \<noteq> None" using ne dt by simp
  have b2: "\<exists>vs. addSchedule_request ex_typed
                  = Inr (Some (cur_date ex_typed, trim (cur_title ex_typed), vs))
           \<and> (\<forall>m. vs m = Some Vote_no)"
    using B [THEN conjunct2, THEN conjunct2, THEN conjunct2, THEN conjunct1] hp by (rule mp)
  show ?thesis using tb a1 a2 tt b1 b2 unfolding tt dt by simp
qed

section \<open>Toggling a vote and deleting a schedule\<close>

lemma toggleVote_length: "length (toggleVote i m prev) = length prev"
  by (simp add: toggleVote_def)

lemma toggleVote_nth:
  "k < length prev \<Longrightarrow>
   toggleVote i m prev ! k =
     (if sid (prev ! k) \<noteq> i then prev ! k
      else (prev ! k)\<lparr>votes := spreadVote (votes (prev ! k)) m\<rparr>)"
  by (simp add: toggleVote_def)

lemma toggleVote_distinct:
  assumes "distinct (map sid prev)" and "k < length prev"
  shows "toggleVote (sid (prev ! k)) m prev
         = prev[k := (prev ! k)\<lparr>votes := spreadVote (votes (prev ! k)) m\<rparr>]"
proof (rule nth_equalityI)
  show "length (toggleVote (sid (prev ! k)) m prev) = length (prev[k := (prev ! k)\<lparr>votes := spreadVote (votes (prev ! k)) m\<rparr>])"
    by (simp add: toggleVote_length)
next
  fix j assume "j < length (toggleVote (sid (prev ! k)) m prev)"
  then have j: "j < length prev" by (simp add: toggleVote_length)
  have "sid (prev ! j) = sid (prev ! k) \<longleftrightarrow> j = k"
    using assms j by (metis distinct_conv_nth length_map nth_map)
  then show "toggleVote (sid (prev ! k)) m prev ! j
             = prev[k := (prev ! k)\<lparr>votes := spreadVote (votes (prev ! k)) m\<rparr>] ! j"
    using j by (auto simp: toggleVote_nth nth_list_update)
qed

text \<open>
  Claim C7. Toggling the vote of member \<open>m\<close> on the schedule with identifier \<open>i\<close> keeps the
  length of the list; every schedule with another identifier is unchanged; in a schedule
  with identifier \<open>i\<close> the identifier, the date and the title are unchanged, the vote of
  \<open>m\<close> is the next vote of the cycle and the vote of every other member is unchanged. Where
  the identifiers of the list are distinct, the result is the list with the one position of
  that schedule replaced. In the shared variant the votes sent for a schedule differ from
  its votes at \<open>m\<close> only, and the handler of an update leaves every row with another
  identifier unchanged.
\<close>

theorem C7_toggle_frame:
  "length (toggleVote i m prev) = length prev
   \<and> (\<forall>j<length prev. sid (prev ! j) \<noteq> i \<longrightarrow> toggleVote i m prev ! j = prev ! j)
   \<and> (\<forall>j<length prev. sid (prev ! j) = i \<longrightarrow>
        sid (toggleVote i m prev ! j) = i
        \<and> date (toggleVote i m prev ! j) = date (prev ! j)
        \<and> title (toggleVote i m prev ! j) = title (prev ! j)
        \<and> votes (toggleVote i m prev ! j) m = nextVote (votes (prev ! j) m)
        \<and> (\<forall>m'. m' \<noteq> m \<longrightarrow> votes (toggleVote i m prev ! j) m' = votes (prev ! j) m'))
   \<and> (distinct (map sid prev) \<and> k < length prev \<longrightarrow>
        toggleVote (sid (prev ! k)) m prev
          = prev[k := (prev ! k)\<lparr>votes := (votes (prev ! k))(m := nextVote (votes (prev ! k) m))\<rparr>])
   \<and> fst (toggleVote_request s m) = sid s
   \<and> snd (toggleVote_request s m) m = nextVote (votes s m)
   \<and> (\<forall>m'. m' \<noteq> m \<longrightarrow> snd (toggleVote_request s m) m' = votes s m')
   \<and> length (onChange (UPDATE row) prev) = length prev
   \<and> (\<forall>j<length prev. onChange (UPDATE row) prev ! j
          = (if sid (prev ! j) = sid row then row else prev ! j))"
proof -
  have local: "\<forall>j<length prev. sid (prev ! j) = i \<longrightarrow>
        sid (toggleVote i m prev ! j) = i
        \<and> date (toggleVote i m prev ! j) = date (prev ! j)
        \<and> title (toggleVote i m prev ! j) = title (prev ! j)
        \<and> votes (toggleVote i m prev ! j) m = nextVote (votes (prev ! j) m)
        \<and> (\<forall>m'. m' \<noteq> m \<longrightarrow> votes (toggleVote i m prev ! j) m' = votes (prev ! j) m')"
    by (simp add: toggleVote_nth spreadVote_other spreadVote_same)
  have other: "\<forall>j<length prev. sid (prev ! j) \<noteq> i \<longrightarrow> toggleVote i m prev ! j = prev ! j"
    by (simp add: toggleVote_nth)
  have one: "distinct (map sid prev) \<and> k < length prev \<longrightarrow>
        toggleVote (sid (prev ! k)) m prev
          = prev[k := (prev ! k)\<lparr>votes := (votes (prev ! k))(m := nextVote (votes (prev ! k) m))\<rparr>]"
    using toggleVote_distinct [of prev k m] by (simp add: spreadVote_def)
  have r1: "fst (toggleVote_request s m) = sid s"
    and r2: "snd (toggleVote_request s m) m = nextVote (votes s m)"
    and r3: "\<forall>m'. m' \<noteq> m \<longrightarrow> snd (toggleVote_request s m) m' = votes s m'"
    by (simp_all add: toggleVote_request_def spreadVote_other spreadVote_same)
  have u1: "length (onChange (UPDATE row) prev) = length prev"
    and u2: "\<forall>j<length prev. onChange (UPDATE row) prev ! j
              = (if sid (prev ! j) = sid row then row else prev ! j)"
    by simp_all
  show ?thesis
    by (intro conjI) (rule toggleVote_length other local one r1 r2 r3 u1 u2)+
qed

text \<open>
  The theorem for C7 at a list of two schedules, toggling the vote of one member on the
  first.
\<close>

theorem C7_toggle_frame_witness:
  "length (toggleVote 1700000000123 Rino ex_list) = 2
   \<and> sid (ex_list ! 1) \<noteq> 1700000000123
   \<and> toggleVote 1700000000123 Rino ex_list ! 1 = ex_list ! 1
   \<and> sid (ex_list ! 0) = 1700000000123
   \<and> votes (toggleVote 1700000000123 Rino ex_list ! 0) Rino = Some Vote_no
   \<and> votes (toggleVote 1700000000123 Rino ex_list ! 0) Teru = Some Vote_yes
   \<and> title (toggleVote 1700000000123 Rino ex_list ! 0) = title ex_event
   \<and> distinct (map sid ex_list)
   \<and> toggleVote 1700000000123 Rino ex_list
       = [ex_event\<lparr>votes := (votes ex_event)(Rino \<mapsto> Vote_no)\<rparr>, ex_no]
   \<and> snd (toggleVote_request ex_event Rino) Rino = Some Vote_no
   \<and> snd (toggleVote_request ex_event Rino) Teru = Some Vote_yes
   \<and> onChange (UPDATE ex_event) ex_list ! 1 = ex_list ! 1"
proof -
  note T = C7_toggle_frame [where i = 1700000000123 and m = Rino and prev = ex_list and k = 0
      and s = ex_event and row = ex_event]
  have l: "length ex_list = 2" and e0: "ex_list ! 0 = ex_event" and e1: "ex_list ! 1 = ex_no"
    by (simp_all add: ex_list_def)
  have c1: "length (toggleVote 1700000000123 Rino ex_list) = 2"
    using T [THEN conjunct1] l by simp
  have s1: "sid (ex_list ! 1) \<noteq> 1700000000123" and s0: "sid (ex_list ! 0) = 1700000000123"
    unfolding e0 e1 by (simp_all add: ex_sids)
  have l0: "0 < length ex_list" and l1: "1 < length ex_list" by (simp_all add: l)
  have c2: "toggleVote 1700000000123 Rino ex_list ! 1 = ex_list ! 1"
    using T [THEN conjunct2, THEN conjunct1, rule_format, OF l1 s1] .
  have c3: "sid (toggleVote 1700000000123 Rino ex_list ! 0) = 1700000000123
        \<and> date (toggleVote 1700000000123 Rino ex_list ! 0) = date (ex_list ! 0)
        \<and> title (toggleVote 1700000000123 Rino ex_list ! 0) = title (ex_list ! 0)
        \<and> votes (toggleVote 1700000000123 Rino ex_list ! 0) Rino = nextVote (votes (ex_list ! 0) Rino)
        \<and> (\<forall>m'. m' \<noteq> Rino \<longrightarrow> votes (toggleVote 1700000000123 Rino ex_list ! 0) m' = votes (ex_list ! 0) m')"
    using T [THEN conjunct2, THEN conjunct2, THEN conjunct1, rule_format, OF l0 s0] .
  have d: "distinct (map sid ex_list)" by (simp add: ex_list_def ex_sids)
  have hp: "distinct (map sid ex_list) \<and> 0 < length ex_list" using d l0 by simp
  have "toggleVote (sid (ex_list ! 0)) Rino ex_list
          = ex_list[0 := (ex_list ! 0)\<lparr>votes := (votes (ex_list ! 0))(Rino := nextVote (votes (ex_list ! 0) Rino))\<rparr>]"
    using T [THEN conjunct2, THEN conjunct2, THEN conjunct2, THEN conjunct1] hp by (rule mp)
  then have c7: "toggleVote 1700000000123 Rino ex_list
       = [ex_event\<lparr>votes := (votes ex_event)(Rino \<mapsto> Vote_no)\<rparr>, ex_no]"
    by (simp add: ex_list_def ex_votes ex_sids nextVote_values)
  have c4: "snd (toggleVote_request ex_event Rino) Rino = Some Vote_no"
    using T [THEN conjunct2, THEN conjunct2, THEN conjunct2, THEN conjunct2, THEN conjunct2,
        THEN conjunct1]
    by (simp add: ex_votes nextVote_values)
  have c5: "snd (toggleVote_request ex_event Rino) Teru = Some Vote_yes"
    using T [THEN conjunct2, THEN conjunct2, THEN conjunct2, THEN conjunct2, THEN conjunct2,
        THEN conjunct2, THEN conjunct1, rule_format, of Teru]
    by (simp add: ex_votes)
  have c6: "onChange (UPDATE ex_event) ex_list ! 1 = ex_list ! 1"
    using T [THEN conjunct2, THEN conjunct2, THEN conjunct2, THEN conjunct2, THEN conjunct2,
        THEN conjunct2, THEN conjunct2, THEN conjunct2, rule_format, OF l1]
    unfolding e1 by (simp add: ex_sids)
  show ?thesis using c1 s1 c2 s0 c3 d c7 c4 c5 c6 by (simp add: e0 ex_votes nextVote_values)
qed

lemma delete_distinct:
  "distinct (map sid prev) \<Longrightarrow> k < length prev \<Longrightarrow>
   filter (\<lambda>x. sid x \<noteq> sid (prev ! k)) prev = take k prev @ drop (Suc k) prev"
proof (induction prev arbitrary: k)
  case Nil
  then show ?case by simp
next
  case (Cons a prev)
  show ?case
  proof (cases k)
    case 0
    have "sid a \<notin> sid ` set prev" using Cons.prems(1) by simp
    then have "\<forall>x\<in>set prev. sid x \<noteq> sid a" by (metis image_eqI)
    then have "filter (\<lambda>x. sid x \<noteq> sid a) prev = prev" by (simp add: filter_id_conv)
    then show ?thesis using 0 by simp
  next
    case (Suc j)
    then have j: "j < length prev" using Cons.prems(2) by simp
    then have "prev ! j \<in> set prev" by simp
    moreover have "sid a \<notin> sid ` set prev" using Cons.prems(1) by simp
    ultimately have "sid a \<noteq> sid (prev ! j)" by (metis image_eqI)
    then show ?thesis using Suc Cons.IH [of j] Cons.prems(1) j by simp
  qed
qed

text \<open>
  Claim C9. Deleting by identifier (the handler of a delete notification) leaves no schedule
  with that identifier, and keeps every schedule with another identifier, unchanged, as
  often as it occurred and in the same order. Where the identifiers of the list are
  distinct, deleting the identifier of the schedule at a position removes exactly that
  position.
\<close>

theorem C9_delete_frame:
  "(\<forall>x\<in>set (onChange (DELETE i) prev). sid x \<noteq> i)
   \<and> subseq (onChange (DELETE i) prev) prev
   \<and> (\<forall>x. sid x \<noteq> i \<longrightarrow> count_list (onChange (DELETE i) prev) x = count_list prev x)
   \<and> (distinct (map sid prev) \<and> k < length prev \<longrightarrow>
        onChange (DELETE (sid (prev ! k))) prev = take k prev @ drop (Suc k) prev)"
proof -
  have "count_list (filter (\<lambda>x. sid x \<noteq> i) prev) x = count_list prev x" if "sid x \<noteq> i" for x
    using that by (induction prev) auto
  then show ?thesis by (simp add: delete_distinct)
qed

text \<open>
  The theorem for C9 at a list of two schedules, deleting the first.
\<close>

theorem C9_delete_frame_witness:
  "distinct (map sid ex_list)
   \<and> sid (ex_list ! 0) = 1700000000123
   \<and> onChange (DELETE 1700000000123) ex_list = [ex_no]
   \<and> count_list (onChange (DELETE 1700000000123) ex_list) ex_no = count_list ex_list ex_no
   \<and> subseq (onChange (DELETE 1700000000123) ex_list) ex_list"
proof -
  note T = C9_delete_frame [of 1700000000123 ex_list 0]
  have d: "distinct (map sid ex_list)" by (simp add: ex_list_def ex_sids)
  have s0: "sid (ex_list ! 0) = 1700000000123" by (simp add: ex_list_def ex_sids)
  have hp: "distinct (map sid ex_list) \<and> 0 < length ex_list" using d by (simp add: ex_list_def)
  have "onChange (DELETE (sid (ex_list ! 0))) ex_list = take 0 ex_list @ drop (Suc 0) ex_list"
    using T [THEN conjunct2, THEN conjunct2, THEN conjunct2] hp by (rule mp)
  then have c1: "onChange (DELETE 1700000000123) ex_list = [ex_no]"
    unfolding s0 by (simp add: ex_list_def)
  have c2: "count_list (onChange (DELETE 1700000000123) ex_list) ex_no = count_list ex_list ex_no"
    using T [THEN conjunct2, THEN conjunct2, THEN conjunct1, rule_format, of ex_no]
    by (simp add: ex_sids)
  have c3: "subseq (onChange (DELETE 1700000000123) ex_list) ex_list"
    using T [THEN conjunct2, THEN conjunct1] .
  show ?thesis by (intro conjI) (rule d s0 c1 c2 c3)+
qed

text \<open>
  Claim C10. For an identifier that no schedule of the list has, toggling a vote (local
  variants), the handler of a delete notification and the handler of an update notification
  for a row with that identifier each return the list unchanged.
\<close>

theorem C10_unknown_id:
  assumes "i \<notin> sid ` set prev"
  shows "toggleVote i m prev = prev
         \<and> onChange (DELETE i) prev = prev
         \<and> (sid row = i \<longrightarrow> onChange (UPDATE row) prev = prev)"
proof -
  have ne: "\<forall>x\<in>set prev. sid x \<noteq> i" using assms by auto
  have "toggleVote i m prev = prev"
    unfolding toggleVote_def using ne by (simp add: map_idI)
  moreover have "onChange (DELETE i) prev = prev"
    using ne by (simp add: filter_id_conv)
  moreover have "onChange (UPDATE row) prev = prev" if "sid row = i"
    using ne that by (simp add: map_idI)
  ultimately show ?thesis by simp
qed

text \<open>
  The theorem for C10 at a list of two schedules and an identifier that neither has.
\<close>

theorem C10_unknown_id_witness:
  "42 \<notin> sid ` set ex_list
   \<and> toggleVote 42 Teru ex_list = ex_list
   \<and> onChange (DELETE 42) ex_list = ex_list
   \<and> onChange (UPDATE (ex_no\<lparr>sid := 42\<rparr>)) ex_list = ex_list"
proof -
  have h: "42 \<notin> sid ` set ex_list" by (simp add: ex_list_def ex_sids)
  note T = C10_unknown_id [OF h, of Teru "ex_no\<lparr>sid := 42\<rparr>"]
  have "onChange (UPDATE (ex_no\<lparr>sid := 42\<rparr>)) ex_list = ex_list"
    using T [THEN conjunct2, THEN conjunct2] by simp
  then show ?thesis using h T [THEN conjunct1] T [THEN conjunct2, THEN conjunct1] by simp
qed

section \<open>Properties of the time values\<close>

lemma div_bounds:
  fixes x k :: int
  assumes "0 < k"
  shows "k * (x div k) \<le> x" and "x < k * (x div k) + k"
proof -
  have "x = k * (x div k) + x mod k" by simp
  moreover have "0 \<le> x mod k" "x mod k < k" using assms by simp_all
  ultimately show "k * (x div k) \<le> x" and "x < k * (x div k) + k" by linarith+
qed

lemma div_succ:
  fixes x k :: int
  assumes "1 < k"
  shows "(x + 1) div k - x div k = (if (x + 1) mod k = 0 then 1 else 0)"
proof -
  define q r where "q = x div k" and "r = x mod k"
  have x: "x = k * q + r" and r: "0 \<le> r" "r < k" using assms by (simp_all add: q_def r_def)
  show ?thesis
  proof (cases "r + 1 < k")
    case True
    have "x + 1 = k * q + (r + 1)" using x by simp
    then have "(x + 1) div k = q" "(x + 1) mod k = r + 1"
      using True r by (auto intro: int_div_pos_eq int_mod_pos_eq)
    then show ?thesis using r by (simp add: q_def)
  next
    case False
    then have "x + 1 = k * (q + 1) + 0" using x r by (simp add: algebra_simps)
    then have "(x + 1) div k = q + 1" "(x + 1) mod k = 0"
      using assms by (auto intro: int_div_pos_eq int_mod_pos_eq)
    then show ?thesis by (simp add: q_def)
  qed
qed

lemma div_step_at:
  fixes y k m :: int
  assumes "1 < k"
  shows "(y - (k * m + 1) + 1) div k - (y - (k * m + 1)) div k = (if y mod k = 0 then 1 else 0)"
proof -
  have "y - (k * m + 1) + 1 = y + k * (- m)" by simp
  then have "(y - (k * m + 1) + 1) mod k = y mod k" by (simp only: mod_mult_self2)
  then show ?thesis using div_succ [OF assms, of "y - (k * m + 1)"] by simp
qed

lemma mod_0_coarser:
  fixes y k j :: int
  assumes "y mod (k * j) = 0"
  shows "y mod k = 0"
proof -
  have "k * j dvd y" using assms by (simp only: mod_eq_0_iff_dvd)
  then have "k dvd y" by (rule dvd_mult_left)
  then show ?thesis by (simp only: mod_eq_0_iff_dvd)
qed

lemma DayFromYear_alt:
  "DayFromYear y = 365 * y - 719050 + (y - 1969) div 4 - (y - 1901) div 100 + (y - 1601) div 400"
  by (simp add: DayFromYear_def)

lemma DayFromYear_step: "DayFromYear (y + 1) - DayFromYear y = DaysInYear y"
proof -
  have a: "(y - 1969 + 1) div 4 - (y - 1969) div 4 = (if y mod 4 = 0 then 1 else 0)"
    using div_step_at [of 4 y 492] by simp
  have b: "(y - 1901 + 1) div 100 - (y - 1901) div 100 = (if y mod 100 = 0 then 1 else 0)"
    using div_step_at [of 100 y 19] by simp
  have c: "(y - 1601 + 1) div 400 - (y - 1601) div 400 = (if y mod 400 = 0 then 1 else 0)"
    using div_step_at [of 400 y 4] by simp
  have d: "y mod 4 = 0" if "y mod 100 = 0"
    using mod_0_coarser [of y 4 25] that by simp
  have e: "y mod 100 = 0" if "y mod 400 = 0"
    using mod_0_coarser [of y 100 4] that by simp
  have s: "y + 1 - 1969 = y - 1969 + 1" "y + 1 - 1901 = y - 1901 + 1" "y + 1 - 1601 = y - 1601 + 1"
    by simp_all
  define A B C where "A = (y - 1969) div 4" and "B = (y - 1901) div 100" and "C = (y - 1601) div 400"
  define A' B' C' where "A' = (y - 1969 + 1) div 4" and "B' = (y - 1901 + 1) div 100"
    and "C' = (y - 1601 + 1) div 400"
  have eq: "DayFromYear (y + 1) - DayFromYear y = 365 + (A' - A) - (B' - B) + (C' - C)"
    unfolding DayFromYear_alt s A_def B_def C_def A'_def B'_def C'_def by simp
  have a': "A' - A = (if y mod 4 = 0 then 1 else 0)" using a by (simp only: A_def A'_def)
  have b': "B' - B = (if y mod 100 = 0 then 1 else 0)" using b by (simp only: B_def B'_def)
  have c': "C' - C = (if y mod 400 = 0 then 1 else 0)" using c by (simp only: C_def C'_def)
  show ?thesis
    unfolding eq a' b' c' DaysInYear_def using d e by auto
qed

lemma YearFromTime_estimate:
  fixes d :: int
  defines "y \<equiv> 1970 + (400 * d) div 146097"
  shows "DayFromYear (y - 1) \<le> d" and "d < DayFromYear (y + 2)"
proof -
  define q where "q = (400 * d) div 146097"
  have q1: "146097 * q \<le> 400 * d" and q2: "400 * d < 146097 * q + 146097"
    unfolding q_def using div_bounds [of 146097 "400 * d"] by simp_all
  have y: "y = 1970 + q" by (simp add: y_def q_def)
  define a where "a = (y - 1 - 1969) div 4"
  define b where "b = (y - 1 - 1901) div 100"
  define c where "c = (y - 1 - 1601) div 400"
  have a1: "4 * a \<le> y - 1 - 1969" "y - 1 - 1969 < 4 * a + 4"
    unfolding a_def using div_bounds [of 4 "y - 1 - 1969"] by simp_all
  have b1: "100 * b \<le> y - 1 - 1901" "y - 1 - 1901 < 100 * b + 100"
    unfolding b_def using div_bounds [of 100 "y - 1 - 1901"] by simp_all
  have c1: "400 * c \<le> y - 1 - 1601" "y - 1 - 1601 < 400 * c + 400"
    unfolding c_def using div_bounds [of 400 "y - 1 - 1601"] by simp_all
  have "DayFromYear (y - 1) = 365 * y - 365 - 719050 + a - b + c"
    by (simp add: DayFromYear_alt a_def b_def c_def)
  then show "DayFromYear (y - 1) \<le> d" using a1 b1 c1 q1 q2 y by linarith
  define a' where "a' = (y + 2 - 1969) div 4"
  define b' where "b' = (y + 2 - 1901) div 100"
  define c' where "c' = (y + 2 - 1601) div 400"
  have a2: "4 * a' \<le> y + 2 - 1969" "y + 2 - 1969 < 4 * a' + 4"
    unfolding a'_def using div_bounds [of 4 "y + 2 - 1969"] by simp_all
  have b2: "100 * b' \<le> y + 2 - 1901" "y + 2 - 1901 < 100 * b' + 100"
    unfolding b'_def using div_bounds [of 100 "y + 2 - 1901"] by simp_all
  have c2: "400 * c' \<le> y + 2 - 1601" "y + 2 - 1601 < 400 * c' + 400"
    unfolding c'_def using div_bounds [of 400 "y + 2 - 1601"] by simp_all
  have "DayFromYear (y + 2) = 365 * y + 730 - 719050 + a' - b' + c'"
    by (simp add: DayFromYear_alt a'_def b'_def c'_def)
  then show "d < DayFromYear (y + 2)" using a2 b2 c2 q1 q2 y by linarith
qed

text \<open>
  \<open>YearFromTime\<close> is the year ECMA-262 specifies: the first day of the year is not after
  the day of the time value, and the first day of the next year is.
\<close>

lemma YearFromTime_bounds:
  "DayFromYear (YearFromTime t) \<le> Day t \<and> Day t < DayFromYear (YearFromTime t + 1)"
proof -
  define y where "y = 1970 + (400 * Day t) div 146097"
  have lo: "DayFromYear (y - 1) \<le> Day t" and hi: "Day t < DayFromYear (y + 2)"
    unfolding y_def using YearFromTime_estimate [of "Day t"] by simp_all
  have yft: "YearFromTime t = (if Day t < DayFromYear y then y - 1
      else if DayFromYear (y + 1) \<le> Day t then y + 1 else y)"
    by (simp add: YearFromTime_def Let_def y_def)
  show ?thesis
  proof (cases "Day t < DayFromYear y")
    case True
    then show ?thesis using lo yft by simp
  next
    case False
    show ?thesis
    proof (cases "DayFromYear (y + 1) \<le> Day t")
      case True
      have "y + 1 + 1 = y + 2" by simp
      then show ?thesis using True False hi yft by (simp add: add.commute)
    next
      case F2: False
      then show ?thesis using False yft by simp
    qed
  qed
qed

lemma DayWithinYear_range:
  "0 \<le> DayWithinYear t \<and> DayWithinYear t < 365 + InLeapYear t"
proof -
  have "DaysInYear (YearFromTime t) = 365 + InLeapYear t"
    by (simp add: InLeapYear_def DaysInYear_def)
  then show ?thesis
    using YearFromTime_bounds [of t] DayFromYear_step [of "YearFromTime t"]
    unfolding DayWithinYear_def by linarith
qed

lemma InLeapYear_range: "InLeapYear t = 0 \<or> InLeapYear t = 1"
  by (simp add: InLeapYear_def)

lemma MonthFromTime_range: "0 \<le> MonthFromTime t \<and> MonthFromTime t \<le> 11"
  by (simp add: MonthFromTime_def Let_def)

lemma DateFromTime_range: "1 \<le> DateFromTime t \<and> DateFromTime t \<le> 31"
proof -
  define d l where "d = DayWithinYear t" and "l = InLeapYear t"
  have r: "0 \<le> d" "d < 365 + l" "l = 0 \<or> l = 1"
    using DayWithinYear_range [of t] InLeapYear_range [of t] by (simp_all add: d_def l_def)
  have m: "MonthFromTime t =
     (if d < 31 then 0 else if d < 59 + l then 1 else if d < 90 + l then 2
      else if d < 120 + l then 3 else if d < 151 + l then 4 else if d < 181 + l then 5
      else if d < 212 + l then 6 else if d < 243 + l then 7 else if d < 273 + l then 8
      else if d < 304 + l then 9 else if d < 334 + l then 10 else 11)"
    by (simp add: MonthFromTime_def Let_def d_def l_def)
  have "DateFromTime t =
     (if d < 31 then d + 1 else if d < 59 + l then d - 30 else if d < 90 + l then d - 58 - l
      else if d < 120 + l then d - 89 - l else if d < 151 + l then d - 119 - l
      else if d < 181 + l then d - 150 - l else if d < 212 + l then d - 180 - l
      else if d < 243 + l then d - 211 - l else if d < 273 + l then d - 242 - l
      else if d < 304 + l then d - 272 - l else if d < 334 + l then d - 303 - l
      else d - 333 - l)"
    unfolding DateFromTime_def Let_def m d_def [symmetric] l_def [symmetric] by simp
  then show ?thesis using r by (auto split: if_splits)
qed

lemma time_ranges:
  "0 \<le> HourFromTime t \<and> HourFromTime t < 24"
  "0 \<le> MinFromTime t \<and> MinFromTime t < 60"
  "0 \<le> SecFromTime t \<and> SecFromTime t < 60"
  "0 \<le> msFromTime t \<and> msFromTime t < 1000"
  by (simp_all add: HourFromTime_def MinFromTime_def SecFromTime_def msFromTime_def)

lemma fourDigitYear_range:
  assumes "fourDigitYear t"
  shows "\<bar>t\<bar> \<le> 8640000000000000"
proof -
  define y where "y = YearFromTime t"
  have y: "0 \<le> y" "y \<le> 9999" using assms by (simp_all add: fourDigitYear_def y_def)
  have d: "DayFromYear y \<le> Day t" "Day t < DayFromYear (y + 1)"
    using YearFromTime_bounds [of t] by (simp_all add: y_def)
  define a b c where "a = (y - 1969) div 4" and "b = (y - 1901) div 100" and "c = (y - 1601) div 400"
  have a1: "4 * a \<le> y - 1969" "y - 1969 < 4 * a + 4"
    unfolding a_def using div_bounds [of 4 "y - 1969"] by simp_all
  have b1: "100 * b \<le> y - 1901" "y - 1901 < 100 * b + 100"
    unfolding b_def using div_bounds [of 100 "y - 1901"] by simp_all
  have c1: "400 * c \<le> y - 1601" "y - 1601 < 400 * c + 400"
    unfolding c_def using div_bounds [of 400 "y - 1601"] by simp_all
  have "DayFromYear y = 365 * y - 719050 + a - b + c"
    by (simp add: DayFromYear_alt a_def b_def c_def)
  then have lo: "- 720000 \<le> Day t" using a1 b1 c1 y d(1) by linarith
  define a' b' c' where "a' = (y + 1 - 1969) div 4" and "b' = (y + 1 - 1901) div 100"
    and "c' = (y + 1 - 1601) div 400"
  have a2: "4 * a' \<le> y + 1 - 1969" "y + 1 - 1969 < 4 * a' + 4"
    unfolding a'_def using div_bounds [of 4 "y + 1 - 1969"] by simp_all
  have b2: "100 * b' \<le> y + 1 - 1901" "y + 1 - 1901 < 100 * b' + 100"
    unfolding b'_def using div_bounds [of 100 "y + 1 - 1901"] by simp_all
  have c2: "400 * c' \<le> y + 1 - 1601" "y + 1 - 1601 < 400 * c' + 400"
    unfolding c'_def using div_bounds [of 400 "y + 1 - 1601"] by simp_all
  have "DayFromYear (y + 1) = 365 * y + 365 - 719050 + a' - b' + c'"
    by (simp add: DayFromYear_alt a'_def b'_def c'_def)
  then have hi: "Day t < 3000000" using a2 b2 c2 y d(2) by linarith
  have t: "86400000 * Day t \<le> t" "t < 86400000 * Day t + 86400000"
    using div_bounds [of 86400000 t] by (simp_all add: Day_def msPerDay_def)
  show ?thesis using lo hi t by linarith
qed

section \<open>Properties of the stamps\<close>

lemma decimal_isDigit: "list_all isDigit (decimal n)"
proof (induction n rule: decimal.induct)
  case (1 n)
  show ?case
  proof (cases "n < 10")
    case True
    then show ?thesis by (subst decimal.simps) (simp add: isDigit_def)
  next
    case False
    have "n mod 10 < 10" by simp
    then have "isDigit (48 + n mod 10)" unfolding isDigit_def by linarith
    then show ?thesis using False 1 by (subst decimal.simps) simp
  qed
qed

lemma digits_isDigit: "list_all isDigit (digits k n)"
proof (induction k arbitrary: n)
  case 0
  then show ?case by simp
next
  case (Suc k)
  have "n mod 10 < 10" by simp
  then have "isDigit (48 + n mod 10)" unfolding isDigit_def by linarith
  then show ?case using Suc by simp
qed

lemma length_digits: "length (digits k n) = k"
  by (induction k arbitrary: n) simp_all

lemma digits_zero: "digits k 0 = replicate k 48"
  by (induction k) (simp_all add: replicate_append_same)

lemma length_decimal: "0 < k \<Longrightarrow> n < 10 ^ k \<Longrightarrow> length (decimal n) \<le> k"
proof (induction k arbitrary: n)
  case 0
  then show ?case by simp
next
  case (Suc k)
  show ?case
  proof (cases "n < 10")
    case True
    then show ?thesis by (subst decimal.simps) simp
  next
    case False
    then have k: "0 < k" using Suc.prems by (cases k) simp_all
    have "n div 10 < 10 ^ k" using Suc.prems(2) by (simp add: less_mult_imp_div_less mult.commute)
    then have "length (decimal (n div 10)) \<le> k" using Suc.IH k by simp
    then show ?thesis using False by (subst decimal.simps) simp
  qed
qed

lemma pad_digits: "0 < k \<Longrightarrow> n < 10 ^ k \<Longrightarrow> padStart k 48 (decimal n) = digits k n"
proof (induction k arbitrary: n)
  case 0
  then show ?case by simp
next
  case (Suc k)
  show ?case
  proof (cases "n < 10")
    case True
    then have "decimal n = [48 + n]" by (subst decimal.simps) simp
    moreover have "n div 10 = 0" "n mod 10 = n" using True by simp_all
    ultimately show ?thesis by (simp add: padStart_def digits_zero)
  next
    case False
    then have k: "0 < k" using Suc.prems by (cases k) simp_all
    have lt: "n div 10 < 10 ^ k" using Suc.prems(2) by (simp add: less_mult_imp_div_less mult.commute)
    have len: "length (decimal (n div 10)) \<le> k" using length_decimal [OF k lt] .
    have d: "decimal n = decimal (n div 10) @ [48 + n mod 10]"
      using False by (subst decimal.simps) simp
    have "padStart (Suc k) 48 (decimal n) = padStart k 48 (decimal (n div 10)) @ [48 + n mod 10]"
      using len by (simp add: padStart_def d)
    then show ?thesis using Suc.IH [OF k lt] by simp
  qed
qed

lemma pad_eq_digits: "0 < k \<Longrightarrow> 0 \<le> n \<Longrightarrow> n < 10 ^ k \<Longrightarrow> pad k n = digits k (nat n)"
proof -
  assume k: "0 < k" and n0: "0 \<le> n" and n1: "n < 10 ^ k"
  have "int (nat n) < int (10 ^ k)" using n0 n1 by simp
  then have "nat n < 10 ^ k" by (simp only: of_nat_less_iff)
  then show ?thesis using k by (simp add: pad_def pad_digits)
qed

lemma filter_digits:
  "list_all isDigit xs \<Longrightarrow> filter (\<lambda>c. c \<noteq> 45 \<and> c \<noteq> 58) xs = xs"
  by (induction xs) (auto simp: isDigit_def)

lemma takeWhile_digits:
  "list_all isDigit xs \<Longrightarrow> takeWhile (\<lambda>c. c \<noteq> 46) (xs @ ys) = xs @ takeWhile (\<lambda>c. c \<noteq> 46) ys"
  by (induction xs) (auto simp: isDigit_def)

lemma lit_chars:
  "lit ''-'' = [45]" "lit '':'' = [58]" "lit ''.'' = [46]" "lit ''T'' = [84]" "lit ''Z'' = [90]"
  "of_char (CHR ''-'') = (45::nat)" "of_char (CHR '':'') = (58::nat)"
  "of_char (CHR ''.'') = (46::nat)" "of_char (CHR ''T'') = (84::nat)"
  "of_char (CHR ''Z'') = (90::nat)"
  by (simp_all add: lit_def)

lemma strip_iso:
  assumes "list_all isDigit y4" "list_all isDigit mo" "list_all isDigit d"
    "list_all isDigit h" "list_all isDigit mi" "list_all isDigit s"
  shows "takeWhile (\<lambda>c. c \<noteq> 46)
           (filter (\<lambda>c. c \<noteq> 45 \<and> c \<noteq> 58)
              (y4 @ [45] @ mo @ [45] @ d @ [84] @ h @ [58] @ mi @ [58] @ s @ [46] @ rest))
         = y4 @ mo @ d @ [84] @ h @ mi @ s"
proof -
  let ?P = "\<lambda>c::nat. c \<noteq> 45 \<and> c \<noteq> 58"
  let ?Q = "\<lambda>c::nat. c \<noteq> 46"
  have f: "filter ?P (y4 @ [45] @ mo @ [45] @ d @ [84] @ h @ [58] @ mi @ [58] @ s @ [46] @ rest)
           = y4 @ mo @ d @ [84] @ h @ mi @ s @ [46] @ filter ?P rest"
    using assms by (simp add: filter_digits)
  have t1: "takeWhile ?Q (s @ [46] @ filter ?P rest) = s"
    using takeWhile_digits [OF assms(6), of "[46] @ filter ?P rest"] by simp
  have t2: "takeWhile ?Q (h @ mi @ s @ [46] @ filter ?P rest) = h @ mi @ s"
    using takeWhile_digits [OF assms(4)] takeWhile_digits [OF assms(5)] t1 by simp
  have t3: "takeWhile ?Q ([84] @ h @ mi @ s @ [46] @ filter ?P rest) = [84] @ h @ mi @ s"
    using t2 by simp
  have "takeWhile ?Q (y4 @ mo @ d @ [84] @ h @ mi @ s @ [46] @ filter ?P rest)
        = y4 @ mo @ d @ [84] @ h @ mi @ s"
    using takeWhile_digits [OF assms(1)] takeWhile_digits [OF assms(2)]
      takeWhile_digits [OF assms(3)] t3 by simp
  then show ?thesis by (simp only: f)
qed

lemma stampOf_fourDigitYear:
  assumes "fourDigitYear t"
  shows "stampOf (Some t) = Inr (calendarStamp t)"
proof -
  have y: "isoYear (YearFromTime t) = digits 4 (nat (YearFromTime t))"
    using assms pad_eq_digits [of 4 "YearFromTime t"] by (simp add: isoYear_def fourDigitYear_def)
  have mo: "pad 2 (MonthFromTime t + 1) = digits 2 (nat (MonthFromTime t + 1))"
    using MonthFromTime_range [of t] by (intro pad_eq_digits) simp_all
  have d: "pad 2 (DateFromTime t) = digits 2 (nat (DateFromTime t))"
    using DateFromTime_range [of t] by (intro pad_eq_digits) simp_all
  have h: "pad 2 (HourFromTime t) = digits 2 (nat (HourFromTime t))"
    using time_ranges(1) [of t] by (intro pad_eq_digits) simp_all
  have mi: "pad 2 (MinFromTime t) = digits 2 (nat (MinFromTime t))"
    using time_ranges(2) [of t] by (intro pad_eq_digits) simp_all
  have s: "pad 2 (SecFromTime t) = digits 2 (nat (SecFromTime t))"
    using time_ranges(3) [of t] by (intro pad_eq_digits) simp_all
  have iso: "toISOString (Some t) =
      Inr (digits 4 (nat (YearFromTime t)) @ [45] @ digits 2 (nat (MonthFromTime t + 1)) @ [45]
           @ digits 2 (nat (DateFromTime t)) @ [84] @ digits 2 (nat (HourFromTime t)) @ [58]
           @ digits 2 (nat (MinFromTime t)) @ [58] @ digits 2 (nat (SecFromTime t)) @ [46]
           @ (pad 3 (msFromTime t) @ [90]))"
    by (simp add: toISOString_def y mo d h mi s lit_chars)
  show ?thesis
    unfolding stampOf_def iso thenE_def sum.case lit_chars
    by (simp only: strip_iso [OF digits_isDigit digits_isDigit digits_isDigit digits_isDigit
          digits_isDigit digits_isDigit] calendarStamp_def lit_chars append_assoc)
qed

lemma calendarStamp_shape: "isCalendarStamp (calendarStamp t)"
proof -
  define a where "a = digits 4 (nat (YearFromTime t)) @ digits 2 (nat (MonthFromTime t + 1))
     @ digits 2 (nat (DateFromTime t))"
  define b where "b = digits 2 (nat (HourFromTime t))
     @ digits 2 (nat (MinFromTime t)) @ digits 2 (nat (SecFromTime t))"
  have la: "length a = 8" and lb: "length b = 6" by (simp_all add: a_def b_def length_digits)
  have da: "list_all isDigit a" and db: "list_all isDigit b"
    by (simp_all add: a_def b_def digits_isDigit)
  have c: "calendarStamp t = a @ [84] @ b @ [90]"
    by (simp add: calendarStamp_def a_def b_def lit_chars)
  show ?thesis
    unfolding isCalendarStamp_def c lit_chars using la lb da db
    by (simp add: nth_append)
qed

lemma digits_2: "digits 2 n = [48 + n div 10 mod 10, 48 + n mod 10]"
proof -
  have "digits (Suc (Suc 0)) n = [48 + n div 10 mod 10, 48 + n mod 10]" by simp
  then show ?thesis by (simp only: numeral_2_eq_2)
qed

lemma digits_4:
  "digits 4 n = [48 + n div 10 div 10 div 10 mod 10, 48 + n div 10 div 10 mod 10,
                 48 + n div 10 mod 10, 48 + n mod 10]"
proof -
  have "digits (Suc (Suc (Suc (Suc 0)))) n
        = [48 + n div 10 div 10 div 10 mod 10, 48 + n div 10 div 10 mod 10,
           48 + n div 10 mod 10, 48 + n mod 10]"
    by simp
  moreover have "(4::nat) = Suc (Suc (Suc (Suc 0)))" by simp
  ultimately show ?thesis by (simp only:)
qed

lemmas date_defs = YearFromTime_def Day_def msPerDay_def DayFromYear_def Let_def
  MonthFromTime_def DateFromTime_def DayWithinYear_def InLeapYear_def DaysInYear_def
  HourFromTime_def MinFromTime_def SecFromTime_def msFromTime_def

section \<open>Properties of the export\<close>

text \<open>
  Claim C8. When no schedule is confirmed, \<open>exportICS\<close> throws nothing, has exactly one
  effect, the notice that there is no confirmed schedule, offers no file, and leaves the
  state as it is.
\<close>

theorem C8_export_empty:
  assumes "confirmed (schedules st) = []"
  shows "exportICS st = (Inr [Alert noConfirmed], st)"
  using assms by (simp add: exportICS_def)

text \<open>
  The theorem for C8 at a state whose only schedule holds all votes no.
\<close>

theorem C8_export_empty_witness:
  "confirmed (schedules ex_idle) = []
   \<and> exportICS ex_idle = (Inr [Alert noConfirmed], ex_idle)"
proof -
  have c: "confirmed (schedules ex_idle) = []"
    by (simp add: confirmed_def ex_idle_def allYes_def members_def ex_votes)
  show ?thesis using c C8_export_empty [OF c] by simp
qed

lemma icsEvent_eq:
  assumes "date s = Some t" "fourDigitYear t" "fourDigitYear (t + 7200000)"
  shows "icsEvent s = Inr (spec_vevent (title s) t)"
proof -
  have n: "newDate (Some (t + 7200000)) = Some (t + 7200000)"
    using fourDigitYear_range [OF assms(3)] by (simp add: newDate_def)
  show ?thesis
    by (simp add: icsEvent_def assms(1) getTime_def n stampOf_fourDigitYear [OF assms(2)]
        stampOf_fourDigitYear [OF assms(3)] thenE_def spec_vevent_def)
qed

lemma mapE_icsEvent:
  assumes "map date c = map Some ts"
    and "\<forall>t\<in>set ts. fourDigitYear t \<and> fourDigitYear (t + 7200000)"
  shows "mapE icsEvent c = Inr (map (\<lambda>(ttl, t). spec_vevent ttl t) (zip (map title c) ts))"
  using assms
proof (induction c arbitrary: ts)
  case Nil
  then show ?case by simp
next
  case (Cons s c)
  then obtain t ts' where ts: "ts = t # ts'" by (cases ts) auto
  have s: "icsEvent s = Inr (spec_vevent (title s) t)"
    using Cons.prems ts by (intro icsEvent_eq) simp_all
  have "mapE icsEvent c = Inr (map (\<lambda>(ttl, t). spec_vevent ttl t) (zip (map title c) ts'))"
    using Cons.prems ts by (intro Cons.IH) simp_all
  then show ?case by (simp add: s ts thenE_def)
qed

lemma join_NL: "bs \<noteq> [] \<Longrightarrow> join NL bs @ NL = concat (map (\<lambda>b. b @ NL) bs)"
  by (induction NL bs rule: join.induct) simp_all

text \<open>
  Claim C5, amended. For every state with at least one confirmed schedule, where every
  confirmed schedule starts at a valid date whose UTC year, and the UTC year two hours
  later, is between 0 and 9999: \<open>exportICS\<close> throws nothing, leaves the state as it is and
  offers one file, named \<open>splatoon-schedule.ics\<close>, whose content is the calendar text of
  the specification: \<open>BEGIN:VCALENDAR\<close>, the version field, then for every confirmed
  schedule in order a block from \<open>BEGIN:VEVENT\<close> to \<open>END:VEVENT\<close> with the title verbatim,
  the stamp of the start and the stamp of the start plus two hours, then \<open>END:VCALENDAR\<close>.
  Every stamp has the form \<open>YYYYMMDDTHHMMSSZ\<close>.
\<close>

theorem C5_export_calendar:
  assumes "c = confirmed (schedules st)" and "c \<noteq> []"
    and "map date c = map Some ts"
    and "\<forall>t\<in>set ts. fourDigitYear t \<and> fourDigitYear (t + 7200000)"
  shows "exportICS st =
           (Inr [Download (lit ''splatoon-schedule.ics'') (lit ''text/calendar;charset=utf-8'')
                   (spec_calendar (zip (map title c) ts))], st)
         \<and> (\<forall>t\<in>set ts. isCalendarStamp (calendarStamp t)
                          \<and> isCalendarStamp (calendarStamp (t + 2 * 3600000)))"
proof -
  let ?evs = "map (\<lambda>(ttl, t). spec_vevent ttl t) (zip (map title c) ts)"
  have len: "length ts = length c" using assms(3) by (metis length_map)
  then have "ts \<noteq> []" using assms(2) by auto
  then have ne: "?evs \<noteq> []" using assms(2) by simp
  have m: "mapE icsEvent c = Inr ?evs" using assms(3,4) by (rule mapE_icsEvent)
  have "join NL ?evs @ NL = concat (map (\<lambda>b. b @ NL) ?evs)" using ne by (rule join_NL)
  also have "\<dots> = concat (map (\<lambda>(ttl, t). spec_vevent ttl t @ NL) (zip (map title c) ts))"
    by (simp add: case_prod_unfold comp_def)
  finally have j: "join NL ?evs @ NL
      = concat (map (\<lambda>(ttl, t). spec_vevent ttl t @ NL) (zip (map title c) ts))" .
  have "exportICS st =
           (Inr [Download (lit ''splatoon-schedule.ics'') (lit ''text/calendar;charset=utf-8'')
                   (lit ''BEGIN:VCALENDAR'' @ NL @ lit ''VERSION:2.0'' @ NL
                    @ (join NL ?evs @ NL) @ lit ''END:VCALENDAR'')], st)"
    using assms(1,2) m by (simp add: exportICS_def Let_def thenE_def)
  then show ?thesis
    unfolding j spec_calendar_def by (simp add: calendarStamp_shape)
qed

lemma allYes_ex_event: "allYes ex_event"
  by (simp add: allYes_def ex_event_def members_def)

lemma confirmed_ex_state: "confirmed (schedules ex_state) = [ex_event]"
  by (simp add: confirmed_def ex_state_def allYes_ex_event)

lemma ex_start_stamp: "calendarStamp 1700000000000 = lit ''20231114T221320Z''"
  by (simp add: calendarStamp_def date_defs digits_2 digits_4 lit_def)

lemma ex_end_stamp: "calendarStamp 1700007200000 = lit ''20231115T001320Z''"
  by (simp add: calendarStamp_def date_defs digits_2 digits_4 lit_def)

lemma ex_fourDigitYear: "fourDigitYear 1700000000000" "fourDigitYear 1700007200000"
  by (simp_all add: fourDigitYear_def date_defs)

text \<open>
  The theorem for C5 at one confirmed schedule titled \<open>21:00\<close> and two ideographs that
  starts at 2023-11-14 22:13:20 UTC.
\<close>

theorem C5_export_calendar_witness:
  "confirmed (schedules ex_state) = [ex_event]
   \<and> map date [ex_event] = map Some [1700000000000]
   \<and> fourDigitYear 1700000000000 \<and> fourDigitYear (1700000000000 + 7200000)
   \<and> exportICS ex_state =
       (Inr [Download (lit ''splatoon-schedule.ics'') (lit ''text/calendar;charset=utf-8'')
              (lit ''BEGIN:VCALENDAR'' @ NL @ lit ''VERSION:2.0'' @ NL
               @ lit ''BEGIN:VEVENT'' @ NL
               @ lit ''SUMMARY:21:00'' @ [38598, 21512] @ NL
               @ lit ''DTSTART:20231114T221320Z'' @ NL
               @ lit ''DTEND:20231115T001320Z'' @ NL
               @ lit ''END:VEVENT'' @ NL
               @ lit ''END:VCALENDAR'')], ex_state)
   \<and> isCalendarStamp (lit ''20231114T221320Z'')
   \<and> isCalendarStamp (lit ''20231115T001320Z'')"
proof -
  have d: "map date [ex_event] = map Some [1700000000000]" by (simp add: ex_event_def)
  have f: "\<forall>t\<in>set [1700000000000 :: int]. fourDigitYear t \<and> fourDigitYear (t + 7200000)"
    using ex_fourDigitYear by simp
  have t: "title ex_event = lit ''21:00'' @ [38598, 21512]" by (simp add: ex_event_def)
  show ?thesis
    using C5_export_calendar [OF confirmed_ex_state [symmetric] _ d f] ex_fourDigitYear d confirmed_ex_state
    by (simp add: spec_calendar_def spec_vevent_def ex_start_stamp ex_end_stamp t lit_def)
qed

lemma allYes_ex_late: "allYes ex_late"
  by (simp add: allYes_def ex_late_def members_def)

lemma late_stamps:
  "stampOf (Some 253402300800000) = Inr (lit ''+0100000101T000000Z'')"
  "stampOf (Some 253402308000000) = Inr (lit ''+0100000101T020000Z'')"
  by (simp_all add: stampOf_def toISOString_def isoYear_def pad_def padStart_def decimal.simps
      date_defs thenE_def lit_def)

lemma late_spec_stamp: "calendarStamp 253402300800000 = lit ''00000101T000000Z''"
  by (simp add: calendarStamp_def date_defs digits_2 digits_4 lit_def)

lemma late_shape: "\<not> isCalendarStamp (lit ''+0100000101T000000Z'')"
  by (simp add: isCalendarStamp_def lit_def)

text \<open>
  Claim C5 as first stated, for every non-empty confirmed sequence, fails: for a confirmed
  schedule that starts in the first millisecond of the year 10000, \<open>toISOString\<close> writes the
  year as \<open>+010000\<close>, and the start stamp of the exported file is
  \<open>+0100000101T000000Z\<close>, which is not of the form \<open>YYYYMMDDTHHMMSSZ\<close>.
\<close>

theorem C5_year_10000_counterexample:
  "confirmed (schedules ex_late_state) = [ex_late]
   \<and> map date [ex_late] = map Some [253402300800000]
   \<and> fst (exportICS ex_late_state) =
       Inr [Download (lit ''splatoon-schedule.ics'') (lit ''text/calendar;charset=utf-8'')
              (lit ''BEGIN:VCALENDAR'' @ NL @ lit ''VERSION:2.0'' @ NL
               @ lit ''BEGIN:VEVENT'' @ NL
               @ lit ''SUMMARY:x'' @ NL
               @ lit ''DTSTART:+0100000101T000000Z'' @ NL
               @ lit ''DTEND:+0100000101T020000Z'' @ NL
               @ lit ''END:VEVENT'' @ NL
               @ lit ''END:VCALENDAR'')]
   \<and> \<not> isCalendarStamp (lit ''+0100000101T000000Z'')
   \<and> fst (exportICS ex_late_state) \<noteq>
       Inr [Download (lit ''splatoon-schedule.ics'') (lit ''text/calendar;charset=utf-8'')
              (spec_calendar (zip (map title [ex_late]) [253402300800000]))]"
proof -
  have c: "confirmed (schedules ex_late_state) = [ex_late]"
    by (simp add: confirmed_def ex_late_state_def allYes_ex_late)
  have e: "icsEvent ex_late =
      Inr (lit ''BEGIN:VEVENT'' @ NL @ lit ''SUMMARY:x'' @ NL
           @ lit ''DTSTART:+0100000101T000000Z'' @ NL
           @ lit ''DTEND:+0100000101T020000Z'' @ NL @ lit ''END:VEVENT'')"
    by (simp add: icsEvent_def ex_late_def getTime_def newDate_def late_stamps thenE_def lit_def)
  have x: "fst (exportICS ex_late_state) =
       Inr [Download (lit ''splatoon-schedule.ics'') (lit ''text/calendar;charset=utf-8'')
              (lit ''BEGIN:VCALENDAR'' @ NL @ lit ''VERSION:2.0'' @ NL
               @ lit ''BEGIN:VEVENT'' @ NL
               @ lit ''SUMMARY:x'' @ NL
               @ lit ''DTSTART:+0100000101T000000Z'' @ NL
               @ lit ''DTEND:+0100000101T020000Z'' @ NL
               @ lit ''END:VEVENT'' @ NL
               @ lit ''END:VCALENDAR'')]"
    by (simp add: exportICS_def c e thenE_def)
  have t: "title ex_late = lit ''x''" by (simp add: ex_late_def)
  have n: "fst (exportICS ex_late_state) \<noteq>
       Inr [Download (lit ''splatoon-schedule.ics'') (lit ''text/calendar;charset=utf-8'')
              (spec_calendar (zip (map title [ex_late]) [253402300800000]))]"
    unfolding x by (simp add: spec_calendar_def spec_vevent_def late_spec_stamp t lit_def NL_def)
  show ?thesis using c x n late_shape by (simp add: ex_late_def)
qed

end
